theory Spec2Isabelle
  imports Main "HOL-Library.Sublist"
begin

section \<open>JavaScript strings and the string methods the analyzer calls\<close>

text \<open>
  A JavaScript string is a sequence of UTF-16 code units. This development covers the
  strings whose code units lie in U+0000..U+00FF (ASCII and Latin-1), one \<^typ>\<open>char\<close>
  per code unit; on these strings the case mappings and the regular-expression
  semantics below are those of ECMA-262. Code units above U+00FF (whose case mappings
  need the Unicode tables) are outside the model.
\<close>

definition unit :: "char \<Rightarrow> nat" where
  "unit c = of_char c"

text \<open>\<open>String.prototype.toLowerCase\<close>: A-Z and the Latin-1 capitals U+00C0..U+00DE
  (except the multiplication sign U+00D7) move up by 32; every other unit is kept.\<close>

definition toLowerCase_unit :: "char \<Rightarrow> char" where
  "toLowerCase_unit c =
     (let n = unit c in
      if (65 \<le> n \<and> n \<le> 90) \<or> (192 \<le> n \<and> n \<le> 222 \<and> n \<noteq> 215)
      then char_of (n + 32) else c)"

definition toLowerCase :: "string \<Rightarrow> string" where
  "toLowerCase s = map toLowerCase_unit s"

text \<open>White space and line terminators below U+0100: TAB, LF, VT, FF, CR, SP, NBSP.
  This is the set that \<open>\s\<close> matches and that \<open>trim\<close> strips.\<close>

definition isWhiteSpace :: "char \<Rightarrow> bool" where
  "isWhiteSpace c = (unit c \<in> {9, 10, 11, 12, 13, 32, 160})"

definition trim :: "string \<Rightarrow> string" where
  "trim s = rev (dropWhile isWhiteSpace (rev (dropWhile isWhiteSpace s)))"

text \<open>\<open>String.prototype.includes\<close>: is there a position at which the search string
  starts? Positions run from 0 to the length of the string, the end included.\<close>

fun startsWith :: "string \<Rightarrow> string \<Rightarrow> bool" where
  "startsWith s [] = True"
| "startsWith [] (t # ts) = False"
| "startsWith (c # s) (t # ts) = (c = t \<and> startsWith s ts)"

fun includes_str :: "string \<Rightarrow> string \<Rightarrow> bool" where
  "includes_str [] t = startsWith [] t"
| "includes_str (c # s) t = (startsWith (c # s) t \<or> includes_str s t)"

text \<open>\<open>Array.prototype.join\<close>: the loop of the language specification, which puts the
  separator before every element but the first.\<close>

fun join_loop :: "string \<Rightarrow> nat \<Rightarrow> string list \<Rightarrow> string \<Rightarrow> string" where
  "join_loop sep k [] R = R"
| "join_loop sep k (x # xs) R =
     join_loop sep (Suc k) xs ((if k > 0 then R @ sep else R) @ x)"

definition join :: "string list \<Rightarrow> string \<Rightarrow> string" where
  "join xs sep = join_loop sep 0 xs []"

text \<open>\<open>String.prototype.split\<close> with a one-unit separator: the pieces between the
  separators, at least one piece. \<open>cur\<close> is the piece being read.\<close>

fun split_loop :: "char \<Rightarrow> string \<Rightarrow> string \<Rightarrow> string list" where
  "split_loop sep cur [] = [cur]"
| "split_loop sep cur (c # s) =
     (if c = sep then cur # split_loop sep [] s else split_loop sep (cur @ [c]) s)"

definition split :: "string \<Rightarrow> char \<Rightarrow> string list" where
  "split s sep = split_loop sep [] s"

text \<open>\<open>Array.prototype.pop\<close> returns the last element, \<open>undefined\<close> on an empty array.\<close>

fun pop :: "'a list \<Rightarrow> 'a option" where
  "pop [] = None"
| "pop [x] = Some x"
| "pop (x # y # ys) = pop (y # ys)"

section \<open>Regular expressions with the \<open>i\<close> flag\<close>

text \<open>
  \<open>Canonicalize\<close> of ECMA-262 for a pattern without the \<open>u\<close> flag: the upper-case
  mapping of the unit when that is a single unit, except that a unit from U+0080 on is
  never mapped into ASCII. Below U+0100: a-z and U+00E0..U+00FE (except the division
  sign U+00F7) move down by 32, the micro sign U+00B5 goes to U+039C, y with diaeresis
  U+00FF to U+0178, and sharp s U+00DF (upper case \<open>SS\<close>, two units) is kept.
\<close>

definition Canonicalize :: "char \<Rightarrow> nat" where
  "Canonicalize c =
     (let n = unit c in
      if (97 \<le> n \<and> n \<le> 122) \<or> (224 \<le> n \<and> n \<le> 254 \<and> n \<noteq> 247) then n - 32
      else if n = 181 then 924
      else if n = 255 then 376
      else n)"

text \<open>A character class is the list of its members below U+0100, or the complement of
  such a list; a literal character is the class of that one character.\<close>

datatype atom = Chars "char list" | NotChars "char list"

text \<open>\<open>CharacterSetMatcher\<close>: the unit is in the class when some member of the class has
  the same canonical form.\<close>

fun CharacterSetMatcher :: "atom \<Rightarrow> char \<Rightarrow> bool" where
  "CharacterSetMatcher (Chars A) c = (Canonicalize c \<in> set (map Canonicalize A))"
| "CharacterSetMatcher (NotChars A) c = (Canonicalize c \<notin> set (map Canonicalize A))"

text \<open>A pattern is a sequence of terms: one atom, or an atom under a greedy
  quantifier \<open>{lo,hi}\<close> (\<open>*\<close> is \<open>{0,}\<close>, \<open>+\<close> is \<open>{1,}\<close>).\<close>

datatype node = Atom atom | Quant atom nat "nat option"

text \<open>
  The matchers return the list of all the ways to match, each given by the input left
  after it, in the order in which backtracking tries them: the head of the list is the
  match that the backtracking matcher of ECMA-262 returns. \<open>RepeatMatcher\<close>: a greedy
  quantifier first tries one more repetition, then, when the lower bound is reached,
  stopping.
\<close>

fun RepeatMatcher :: "atom \<Rightarrow> nat \<Rightarrow> nat option \<Rightarrow> string \<Rightarrow> string list" where
  "RepeatMatcher a lo hi [] = (if hi = Some 0 \<or> lo = 0 then [[]] else [])"
| "RepeatMatcher a lo hi (c # s) =
     (if hi = Some 0 then [c # s]
      else (if CharacterSetMatcher a c
            then RepeatMatcher a (lo - 1) (map_option (\<lambda>h. h - 1) hi) s else [])
           @ (if lo = 0 then [c # s] else []))"

fun match_node :: "node \<Rightarrow> string \<Rightarrow> string list" where
  "match_node (Atom a) [] = []"
| "match_node (Atom a) (c # s) = (if CharacterSetMatcher a c then [s] else [])"
| "match_node (Quant a lo hi) s = RepeatMatcher a lo hi s"

fun match_nodes :: "node list \<Rightarrow> string \<Rightarrow> string list" where
  "match_nodes [] s = [s]"
| "match_nodes (n # ns) s = concat (map (match_nodes ns) (match_node n s))"

text \<open>A regular expression of the program: the terms before its capturing group and
  the terms of the group, which ends the pattern (no terms: there is no group).\<close>

record regexp =
  head_nodes :: "node list"
  group_nodes :: "node list"

text \<open>Matching at the start of the input: the input at the start of the group and the
  input left after the match.\<close>

definition match_here :: "regexp \<Rightarrow> string \<Rightarrow> (string \<times> string) option" where
  "match_here re s =
     (case concat (map (\<lambda>g. map (Pair g) (match_nodes (group_nodes re) g))
                       (match_nodes (head_nodes re) s)) of
        [] \<Rightarrow> None
      | r # _ \<Rightarrow> Some r)"

text \<open>The result of a successful \<open>exec\<close>: the matched text, the text of group 1 and the
  input after the match.\<close>

record match_result =
  matched :: string
  group1 :: string
  rest :: string

text \<open>\<open>RegExpBuiltinExec\<close> from the given input on: the leftmost position with a
  match, the end of the input included.\<close>

fun RegExpExec :: "regexp \<Rightarrow> string \<Rightarrow> match_result option" where
  "RegExpExec re [] =
     (case match_here re [] of
        None \<Rightarrow> None
      | Some (g, r) \<Rightarrow> Some \<lparr>matched = [], group1 = take (length g - length r) g, rest = r\<rparr>)"
| "RegExpExec re (c # s) =
     (case match_here re (c # s) of
        None \<Rightarrow> RegExpExec re s
      | Some (g, r) \<Rightarrow>
          Some \<lparr>matched = take (length (c # s) - length r) (c # s),
                group1 = take (length g - length r) g, rest = r\<rparr>)"

text \<open>The match is no longer than the input, and a non-empty match shortens it: the loop
  of a global match ends.\<close>

lemma RepeatMatcher_length:
  "r \<in> set (RepeatMatcher a lo hi s) \<Longrightarrow> length r \<le> length s"
proof (induction s arbitrary: lo hi)
  case Nil
  then show ?case by (simp split: if_splits)
next
  case (Cons c s)
  then show ?case by (fastforce split: if_splits)
qed

lemma match_node_length: "r \<in> set (match_node n s) \<Longrightarrow> length r \<le> length s"
proof (cases n)
  case (Atom a)
  assume "r \<in> set (match_node n s)"
  with Atom show ?thesis by (cases s) (auto split: if_splits)
next
  case (Quant a lo hi)
  assume "r \<in> set (match_node n s)"
  with Quant show ?thesis by (simp add: RepeatMatcher_length)
qed

lemma match_nodes_length: "r \<in> set (match_nodes ns s) \<Longrightarrow> length r \<le> length s"
proof (induction ns arbitrary: s)
  case Nil
  then show ?case by simp
next
  case (Cons n ns)
  then obtain m where "m \<in> set (match_node n s)" and "r \<in> set (match_nodes ns m)"
    by auto
  then have "length m \<le> length s" and "length r \<le> length m"
    using Cons.IH by (auto dest: match_node_length)
  then show ?case by simp
qed

lemma match_here_length:
  assumes "match_here re s = Some (g, r)"
  shows "length r \<le> length g \<and> length g \<le> length s"
proof -
  from assms obtain rs where
    "concat (map (\<lambda>g. map (Pair g) (match_nodes (group_nodes re) g))
       (match_nodes (head_nodes re) s)) = (g, r) # rs"
    by (auto simp: match_here_def split: list.splits)
  then have "(g, r) \<in> set (concat (map (\<lambda>g. map (Pair g) (match_nodes (group_nodes re) g))
      (match_nodes (head_nodes re) s)))"
    by (metis list.set_intros(1))
  then have "g \<in> set (match_nodes (head_nodes re) s)" and "r \<in> set (match_nodes (group_nodes re) g)"
    by auto
  then show ?thesis by (simp add: match_nodes_length)
qed

lemma RegExpExec_rest:
  "RegExpExec re s = Some m \<Longrightarrow>
     length (rest m) \<le> length s \<and> (matched m \<noteq> [] \<longrightarrow> length (rest m) < length s)"
proof (induction s)
  case Nil
  then show ?case by (auto split: option.splits dest: match_here_length)
next
  case (Cons c s)
  show ?case
  proof (cases "match_here re (c # s)")
    case None
    with Cons show ?thesis by auto
  next
    case (Some p)
    obtain g r where p: "p = (g, r)" by (cases p)
    from Some p have "length r \<le> length (c # s)"
      using match_here_length by fastforce
    with Some p Cons.prems show ?thesis by auto
  qed
qed

text \<open>\<open>String.prototype.match\<close> with a \<open>g\<close> pattern: \<open>exec\<close> again and again, each time
  from the end of the match before (one unit further after an empty match), collecting
  the matched texts; \<open>null\<close> when there is none.\<close>

function RegExpMatchAll :: "regexp \<Rightarrow> string \<Rightarrow> string list" where
  "RegExpMatchAll re s =
     (case RegExpExec re s of
        None \<Rightarrow> []
      | Some m \<Rightarrow>
          matched m #
          (if matched m = []
           then (case rest m of [] \<Rightarrow> [] | _ # r \<Rightarrow> RegExpMatchAll re r)
           else RegExpMatchAll re (rest m)))"
  by pat_completeness auto
termination
proof (relation "measure (\<lambda>(re, s). length s)")
  show "wf (measure (\<lambda>(re, s). length s))" by simp
next
  fix re s m c r
  assume "RegExpExec re s = Some m" and "rest m = c # r"
  then show "((re, r), (re, s)) \<in> measure (\<lambda>(re, s). length s)"
    using RegExpExec_rest [of re s m] by simp
next
  fix re s m
  assume "RegExpExec re s = Some m" and "matched m \<noteq> []"
  then show "((re, rest m), (re, s)) \<in> measure (\<lambda>(re, s). length s)"
    using RegExpExec_rest [of re s m] by simp
qed

definition match_g :: "string \<Rightarrow> regexp \<Rightarrow> string list option" where
  "match_g s re = (case RegExpMatchAll re s of [] \<Rightarrow> None | A \<Rightarrow> Some A)"

text \<open>\<open>String.prototype.match\<close> with a pattern that has no \<open>g\<close> flag is one \<open>exec\<close> from
  the start of the string.\<close>

definition match_first :: "string \<Rightarrow> regexp \<Rightarrow> match_result option" where
  "match_first s re = RegExpExec re s"

section \<open>The component \<open>MedicalReportAnalyzer\<close>\<close>

subsection \<open>Data\<close>

text \<open>The uploaded \<open>File\<close>: its \<open>name\<close>, \<open>type\<close> (MIME type) and \<open>size\<close> in bytes, and what the
  three readers outside the repository make of its bytes. \<open>FileReader.readAsText\<close>,
  \<open>Papa.parse\<close> and \<open>XLSX.read\<close> with \<open>XLSX.utils.sheet_to_csv\<close> (one text per sheet) are
  parameters of the model: each promise is resolved with a value, rejected, or never
  settled (an exception inside the \<open>onload\<close> callback).\<close>

datatype 'a promise = Resolved 'a | Rejected | Pending

record File =
  file_name :: string
  file_type :: string
  file_size :: nat
  text_read :: "string promise"
  papa_data :: "string list list promise"
  sheet_csvs :: "string list promise"

record KeyInformation =
  label :: string
  value' :: string

record PotentialCondition =
  name :: string
  confidence :: nat

record AnalysisResult =
  fileType :: string
  fileSize :: string
  keyInformations :: "KeyInformation list"
  medicalTerms :: "string list"
  potentialConditions :: "PotentialCondition list"
  riskFactors :: "string list"
  recommendations :: "string list"

text \<open>What can be thrown: the \<open>Error\<close> of the \<open>default\<close> branch, the rejection of a
  reader, and the \<open>TypeError\<close> of a property read on \<open>null\<close> or \<open>undefined\<close>.\<close>

datatype error = UnsupportedFileType | ParseFailure | TypeError

text \<open>The state of the component (\<open>useState\<close>), and the alerts shown so far.\<close>

record state =
  reportFile :: "File option"
  fileContent :: string
  analysisResults :: AnalysisResult
  isAnalyzing :: bool
  alerts :: "error list"

definition initial_analysisResults :: AnalysisResult where
  "initial_analysisResults =
     \<lparr>fileType = [], fileSize = [], keyInformations = [], medicalTerms = [],
      potentialConditions = [], riskFactors = [], recommendations = []\<rparr>"

definition initial_state :: state where
  "initial_state =
     \<lparr>reportFile = None, fileContent = [], analysisResults = initial_analysisResults,
      isAnalyzing = False, alerts = []\<rparr>"

definition MEDICAL_TERMS_conditions :: "string list" where
  "MEDICAL_TERMS_conditions =
     [''diabetes'', ''hypertension'', ''cancer'', ''heart disease'',
      ''arthritis'', ''asthma'', ''depression'', ''alzheimer's'']"

definition MEDICAL_TERMS_riskFactors :: "string list" where
  "MEDICAL_TERMS_riskFactors =
     [''obesity'', ''smoking'', ''alcohol'', ''sedentary lifestyle'',
      ''high cholesterol'', ''family history'']"

subsection \<open>Ingestion\<close>

definition parseTextFile :: "File \<Rightarrow> string promise" where
  "parseTextFile file = text_read file"

definition parseCSV :: "File \<Rightarrow> string promise" where
  "parseCSV file =
     (case papa_data file of
        Resolved data \<Rightarrow> Resolved (join (map (\<lambda>row. join row '' '') data) ''\<newline>'')
      | Rejected \<Rightarrow> Rejected
      | Pending \<Rightarrow> Pending)"

text \<open>\<open>content += ...\<close> for each sheet, from the empty string.\<close>

definition parseExcel :: "File \<Rightarrow> string promise" where
  "parseExcel file =
     (case sheet_csvs file of
        Resolved sheets \<Rightarrow> Resolved (fold (\<lambda>sheet content. content @ sheet) sheets [])
      | Rejected \<Rightarrow> Rejected
      | Pending \<Rightarrow> Pending)"

subsection \<open>Analysis\<close>

definition lit :: "char \<Rightarrow> node" where
  "lit c = Atom (Chars [c])"

definition class_s :: "char list" where
  "class_s = map char_of [9, 10, 11, 12, 13, 32, 160 :: nat]"

definition class_d :: "char list" where
  "class_d = ''0123456789''"

text \<open>\<open>new RegExp(term, 'gi')\<close> for a term made of pattern characters only (no
  syntax character of the pattern grammar), as every term of the vocabulary is: each character
  stands for itself.\<close>

definition syntax_characters :: "char list" where
  "syntax_characters = ''^$.*+?()[]{}|'' @ [CHR 0x5C]"

definition RegExp_gi :: "string \<Rightarrow> regexp" where
  "RegExp_gi term = \<lparr>head_nodes = map lit term, group_nodes = []\<rparr>"

text \<open>The four patterns of \<open>extractKeyInformations\<close>:
  \<^verbatim>\<open>/patient\s*name[:\s]*([^\n]+)/i\<close>, \<^verbatim>\<open>/age[:\s]*(\d+)/i\<close>,
  \<^verbatim>\<open>/gender[:\s]*([^\n]+)/i\<close> and
  \<^verbatim>\<open>/date[:\s]*(\d{1,2}[-/]\d{1,2}[-/]\d{2,4})/i\<close>.\<close>

definition keyPatterns :: "(string \<times> regexp) list" where
  "keyPatterns =
     [(''Patient Name'',
       \<lparr>head_nodes = map lit ''patient'' @ [Quant (Chars class_s) 0 None] @ map lit ''name''
          @ [Quant (Chars (CHR '':'' # class_s)) 0 None],
        group_nodes = [Quant (NotChars ''\<newline>'') 1 None]\<rparr>),
      (''Age'',
       \<lparr>head_nodes = map lit ''age'' @ [Quant (Chars (CHR '':'' # class_s)) 0 None],
        group_nodes = [Quant (Chars class_d) 1 None]\<rparr>),
      (''Gender'',
       \<lparr>head_nodes = map lit ''gender'' @ [Quant (Chars (CHR '':'' # class_s)) 0 None],
        group_nodes = [Quant (NotChars ''\<newline>'') 1 None]\<rparr>),
      (''Date'',
       \<lparr>head_nodes = map lit ''date'' @ [Quant (Chars (CHR '':'' # class_s)) 0 None],
        group_nodes =
          [Quant (Chars class_d) 1 (Some 2), Atom (Chars ''-/''),
           Quant (Chars class_d) 1 (Some 2), Atom (Chars ''-/''),
           Quant (Chars class_d) 2 (Some 4)]\<rparr>)]"

definition extractKeyInformations :: "string \<Rightarrow> KeyInformation list" where
  "extractKeyInformations content =
     map (\<lambda>(pattern_label, pattern_regex).
            \<lparr>label = pattern_label,
             value' = (case match_first content pattern_regex of
                         Some m \<Rightarrow> trim (group1 m)
                       | None \<Rightarrow> ''Not Found'')\<rparr>)
         keyPatterns"

definition calculateConfidence :: "string \<Rightarrow> string \<Rightarrow> nat" where
  "calculateConfidence content term =
     (let termCount =
            length (case match_g content (RegExp_gi term) of Some A \<Rightarrow> A | None \<Rightarrow> [])
      in min (termCount * 20) 100)"

definition generateRecommendations :: "string list \<Rightarrow> string list \<Rightarrow> string list" where
  "generateRecommendations conditions risk =
     (let recs = [];
          recs =
            (if length conditions > 0
             then recs @
               [''Consult a specialist for detailed evaluation of: '' @ join conditions '', '']
             else recs);
          recs =
            (if length risk > 0
             then recs @
               [''Consider lifestyle modifications to address risk factors: ''
                  @ join risk '', '',
                ''Recommend comprehensive health check-up and personalized health plan'']
             else recs);
          recs =
            (if length recs = 0
             then recs @
               [''No specific recommendations based on the current report'']
             else recs)
      in recs)"

text \<open>Decimal digits of a natural number, and \<open>(size / 1024).toFixed(2)\<close>: the quotient
  is exact in double precision for every size below \<open>2^53\<close>, and \<open>toFixed(2)\<close> prints the
  integer \<open>n\<close> nearest to a hundred times it (the larger of two nearest ones) with a
  point before its last two digits.\<close>

fun digits :: "nat \<Rightarrow> string" where
  "digits n = (if n < 10 then [char_of (48 + n)] else digits (n div 10) @ [char_of (48 + n mod 10)])"

definition toFixed2_div1024 :: "nat \<Rightarrow> string" where
  "toFixed2_div1024 bytes =
     (let n = (100 * bytes + 512) div 1024;
          m = digits n;
          m = replicate (3 - length m) CHR ''0'' @ m
      in take (length m - 2) m @ ''.'' @ drop (length m - 2) m)"

text \<open>\<open>performDetailedAnalysis\<close> reads \<open>reportFile\<close>, the state as the render that created
  the function saw it; reading \<open>.type\<close> of \<open>null\<close> throws, after everything else has been
  computed.\<close>

definition performDetailedAnalysis :: "File option \<Rightarrow> string \<Rightarrow> error + AnalysisResult" where
  "performDetailedAnalysis closure_reportFile content =
     (let lowerContent = toLowerCase content;
          keyInformations = extractKeyInformations content;
          medicalTerms =
            filter (\<lambda>term. includes_str lowerContent (toLowerCase term))
              MEDICAL_TERMS_conditions;
          potentialConditions =
            map (\<lambda>condition.
                    \<lparr>name = condition,
                     confidence = calculateConfidence lowerContent condition\<rparr>)
                medicalTerms;
          riskFactors =
            filter (\<lambda>factor. includes_str lowerContent (toLowerCase factor))
              MEDICAL_TERMS_riskFactors;
          recommendations = generateRecommendations medicalTerms riskFactors
      in case closure_reportFile of
           None \<Rightarrow> Inl TypeError
         | Some file \<Rightarrow>
             Inr \<lparr>fileType = file_type file,
                  fileSize = toFixed2_div1024 (file_size file) @ '' KB'',
                  keyInformations = keyInformations,
                  medicalTerms = medicalTerms,
                  potentialConditions = potentialConditions,
                  riskFactors = riskFactors,
                  recommendations = recommendations\<rparr>)"

subsection \<open>Upload\<close>

text \<open>\<open>parseFile\<close>. Its first argument is the \<open>reportFile\<close> of the render whose closure
  runs; the setters act on the current state. Every exception ends in the \<open>catch\<close>
  block, which shows an alert; \<open>finally\<close> clears the flag. A promise that never settles
  leaves the function suspended at its \<open>await\<close>.\<close>

definition fileExtension :: "File \<Rightarrow> error + string" where
  "fileExtension file =
     (case pop (split (file_name file) CHR ''.'') of
        None \<Rightarrow> Inl TypeError
      | Some e \<Rightarrow> Inr (toLowerCase e))"

text \<open>The \<open>switch\<close> on the extension: the promise of the reader chosen, or the \<open>Error\<close>
  thrown by \<open>default\<close>.\<close>

definition read_content :: "string \<Rightarrow> File \<Rightarrow> error + string promise" where
  "read_content ext file =
     (if ext = ''txt'' then Inr (parseTextFile file)
      else if ext = ''csv'' then Inr (parseCSV file)
      else if ext = ''xlsx'' \<or> ext = ''xls'' then Inr (parseExcel file)
      else Inl UnsupportedFileType)"

text \<open>The \<open>catch\<close> block followed by \<open>finally\<close>.\<close>

definition catch_finally :: "error \<Rightarrow> state \<Rightarrow> state" where
  "catch_finally e st = st\<lparr>alerts := alerts st @ [e], isAnalyzing := False\<rparr>"

definition parseFile :: "File option \<Rightarrow> File \<Rightarrow> state \<Rightarrow> state" where
  "parseFile closure_reportFile file st0 =
     (let st = st0\<lparr>isAnalyzing := True\<rparr> in
      case fileExtension file of
        Inl e \<Rightarrow> catch_finally e st
      | Inr ext \<Rightarrow>
          (case read_content ext file of
             Inl e \<Rightarrow> catch_finally e st
           | Inr Pending \<Rightarrow> st
           | Inr Rejected \<Rightarrow> catch_finally ParseFailure st
           | Inr (Resolved content) \<Rightarrow>
               (let st = st\<lparr>fileContent := content\<rparr> in
                case performDetailedAnalysis closure_reportFile content of
                  Inl e \<Rightarrow> catch_finally e st
                | Inr results \<Rightarrow> st\<lparr>analysisResults := results, isAnalyzing := False\<rparr>)))"

text \<open>\<open>handleFileUpload\<close>, run in a render with state \<open>st\<close>: \<open>setReportFile\<close> changes the
  state of the next render, while \<open>parseFile\<close> and \<open>performDetailedAnalysis\<close> are the
  functions of this render and see its \<open>reportFile\<close>.\<close>

definition handleFileUpload :: "File option \<Rightarrow> state \<Rightarrow> state" where
  "handleFileUpload event_file st =
     (case event_file of
        None \<Rightarrow> st
      | Some file \<Rightarrow> parseFile (reportFile st) file (st\<lparr>reportFile := Some file\<rparr>))"

section \<open>Notions used to state the properties\<close>

text \<open>Joining with a separator, by recursion on the list: the separator stands between
  neighbours.\<close>

fun sep_join :: "string \<Rightarrow> string list \<Rightarrow> string" where
  "sep_join sep [] = []"
| "sep_join sep [x] = x"
| "sep_join sep (x # y # ys) = x @ sep @ sep_join sep (y # ys)"

text \<open>The three kinds of recommendation lines, recognised by their fixed text.\<close>

definition is_specialist_line :: "string \<Rightarrow> bool" where
  "is_specialist_line s = prefix ''Consult a specialist for detailed evaluation of: '' s"

definition is_lifestyle_line :: "string \<Rightarrow> bool" where
  "is_lifestyle_line s =
     (prefix ''Consider lifestyle modifications to address risk factors: '' s
      \<or> s = ''Recommend comprehensive health check-up and personalized health plan'')"

definition default_line :: string where
  "default_line = ''No specific recommendations based on the current report''"

text \<open>The term stands at the start of the text, ignoring case; the number of positions
  of the text at which it does; and the number found by reading from left to right and
  resuming behind each occurrence found (\<open>k\<close> units of the last occurrence are still to
  be passed).\<close>

definition occurs_here :: "string \<Rightarrow> string \<Rightarrow> bool" where
  "occurs_here term s = prefix (toLowerCase term) (toLowerCase s)"

fun occurrences :: "string \<Rightarrow> string \<Rightarrow> nat" where
  "occurrences term [] = (if occurs_here term [] then 1 else 0)"
| "occurrences term (c # s) = (if occurs_here term (c # s) then 1 else 0) + occurrences term s"

fun scan_occurrences :: "string \<Rightarrow> nat \<Rightarrow> string \<Rightarrow> nat" where
  "scan_occurrences term k [] = 0"
| "scan_occurrences term k (c # s) =
     (if k = 0 \<and> occurs_here term (c # s)
      then Suc (scan_occurrences term (length term - 1) s)
      else scan_occurrences term (k - 1) s)"

definition disjoint_occurrences :: "string \<Rightarrow> string \<Rightarrow> nat" where
  "disjoint_occurrences term s = scan_occurrences term 0 s"

definition self_overlapping :: "string \<Rightarrow> bool" where
  "self_overlapping term = list_ex (\<lambda>k. prefix (drop k term) term) [1..<length term]"

text \<open>A literal pattern matches at the start of the input, unit by unit up to
  canonical form.\<close>

fun matches_literally :: "string \<Rightarrow> string \<Rightarrow> bool" where
  "matches_literally [] s = True"
| "matches_literally (p # t) [] = False"
| "matches_literally (p # t) (c # s) = (Canonicalize c = Canonicalize p \<and> matches_literally t s)"

text \<open>Sample inputs: a text file \<open>report.txt\<close> with the given content, and the report
  of four lines.\<close>

definition report_txt :: "string \<Rightarrow> File" where
  "report_txt content =
     \<lparr>file_name = ''report.txt'', file_type = ''text/plain'', file_size = length content,
      text_read = Resolved content, papa_data = Rejected, sheet_csvs = Rejected\<rparr>"

definition jane_doe_report :: string where
  "jane_doe_report =
     ''Patient Name: Jane Doe\<newline>Age: 47\<newline>Gender: Female\<newline>Date: 04/02/1990''"

text \<open>The same report with the line ends CR LF and two blanks behind \<open>Female\<close>.\<close>

definition jane_doe_report_crlf :: string where
  "jane_doe_report_crlf =
     ''Patient Name: Jane Doe'' @ [CHR 0x0D, CHR 0x0A] @
     ''Age: 47'' @ [CHR 0x0D, CHR 0x0A] @
     ''Gender: Female  '' @ [CHR 0x0D, CHR 0x0A] @
     ''Date: 04/02/1990''"

text \<open>Further sample inputs.\<close>

definition six_mentions :: string where
  "six_mentions = ''diabetes Diabetes DIABETES diabetes, diabetes; diabetes''"

definition two_mentions :: string where
  "two_mentions = ''History of Cancer. cancer screening due''"

definition scan_pdf :: File where
  "scan_pdf =
     \<lparr>file_name = ''scan.2024.PDF'', file_type = ''application/pdf'', file_size = 1000,
      text_read = Resolved ''diabetes'', papa_data = Rejected, sheet_csvs = Rejected\<rparr>"

definition labs_csv :: File where
  "labs_csv =
     \<lparr>file_name = ''labs.csv'', file_type = ''text/csv'', file_size = 2048,
      text_read = Rejected, papa_data = Resolved [[''asthma'', ''yes'']],
      sheet_csvs = Rejected\<rparr>"

section \<open>Lemmas\<close>

subsection \<open>Code units and case\<close>

text \<open>On lower-cased units the canonical form of the pattern matcher is injective: it has
  an inverse there.\<close>

lemma unit_less: "unit c < 256"
  by (simp add: unit_def)

lemma unit_inject: "unit a = unit b \<longleftrightarrow> a = b"
  by (simp add: unit_def)

lemma unit_char_of: "unit (char_of n) = n mod 256"
  by (simp add: unit_def)

lemma unit_toLowerCase_unit:
  "unit (toLowerCase_unit c) =
     (if (65 \<le> unit c \<and> unit c \<le> 90) \<or> (192 \<le> unit c \<and> unit c \<le> 222 \<and> unit c \<noteq> 215)
      then unit c + 32 else unit c)"
proof -
  have "unit c + 32 < 256" if "unit c \<le> 222" using that by simp
  then show ?thesis
    by (simp add: toLowerCase_unit_def Let_def unit_char_of)
qed

lemma lowered_range:
  fixes n :: nat
  assumes "n = unit (toLowerCase_unit c)"
  shows "n < 256 \<and> \<not> (65 \<le> n \<and> n \<le> 90) \<and> \<not> (192 \<le> n \<and> n \<le> 222 \<and> n \<noteq> 215)"
proof -
  have "unit c < 256" by (rule unit_less)
  then show ?thesis unfolding assms unit_toLowerCase_unit by (simp split: if_splits) 
qed

lemma Canonicalize_unit:
  "Canonicalize c =
     (if (97 \<le> unit c \<and> unit c \<le> 122) \<or> (224 \<le> unit c \<and> unit c \<le> 254 \<and> unit c \<noteq> 247)
      then unit c - 32
      else if unit c = 181 then 924 else if unit c = 255 then 376 else unit c)"
  by (simp add: Canonicalize_def Let_def)

lemma canonical_inverse:
  fixes n :: nat
  assumes r: "n < 256 \<and> \<not> (65 \<le> n \<and> n \<le> 90) \<and> \<not> (192 \<le> n \<and> n \<le> 222 \<and> n \<noteq> 215)"
  shows "n = (let k = (if (97 \<le> n \<and> n \<le> 122) \<or> (224 \<le> n \<and> n \<le> 254 \<and> n \<noteq> 247)
                 then n - 32
                 else if n = 181 then 924 else if n = 255 then 376 else n) in
           if (65 \<le> k \<and> k \<le> 90) \<or> (192 \<le> k \<and> k \<le> 222 \<and> k \<noteq> 215) then k + 32
           else if k = 924 then 181 else if k = 376 then 255 else k)"
proof -
  consider "97 \<le> n \<and> n \<le> 122" | "224 \<le> n \<and> n \<le> 254 \<and> n \<noteq> 247" | "n = 181" | "n = 255"
    | "\<not> (97 \<le> n \<and> n \<le> 122) \<and> \<not> (224 \<le> n \<and> n \<le> 254 \<and> n \<noteq> 247) \<and> n \<noteq> 181 \<and> n \<noteq> 255"
    by blast
  then show ?thesis
  proof cases
    case 1
    obtain j where j: "n = j + 32" using 1 by (intro that [of "n - 32"]) linarith
    with 1 have "65 \<le> j" "j \<le> 90" by simp_all
    then show ?thesis unfolding j by (simp add: Let_def)
  next
    case 2
    obtain j where j: "n = j + 32" using 2 by (intro that [of "n - 32"]) linarith
    with 2 have "192 \<le> j" "j \<le> 222" "j \<noteq> 215" by simp_all
    then show ?thesis unfolding j by (simp add: Let_def)
  next
    case 3
    then show ?thesis by (simp add: Let_def)
  next
    case 4
    then show ?thesis by (simp add: Let_def)
  next
    case 5
    then have a: "\<not> ((97 \<le> n \<and> n \<le> 122) \<or> (224 \<le> n \<and> n \<le> 254 \<and> n \<noteq> 247))"
      and b: "n \<noteq> 181" "n \<noteq> 255"
      by blast+
    from r have c: "\<not> ((65 \<le> n \<and> n \<le> 90) \<or> (192 \<le> n \<and> n \<le> 222 \<and> n \<noteq> 215))"
      and d: "n \<noteq> 924" "n \<noteq> 376"
      by auto
    show ?thesis by (simp only: Let_def a b c d if_False)
  qed
qed

lemma Canonicalize_lowered_inverse:
  "unit (toLowerCase_unit c) =
     (let k = Canonicalize (toLowerCase_unit c) in
      if (65 \<le> k \<and> k \<le> 90) \<or> (192 \<le> k \<and> k \<le> 222 \<and> k \<noteq> 215) then k + 32
      else if k = 924 then 181 else if k = 376 then 255 else k)"
  using canonical_inverse [OF lowered_range [OF refl, of c]]
  by (simp only: Canonicalize_unit)

lemma Canonicalize_lower_inject:
  "Canonicalize (toLowerCase_unit a) = Canonicalize (toLowerCase_unit b) \<longleftrightarrow>
     toLowerCase_unit a = toLowerCase_unit b"
proof
  assume eq: "Canonicalize (toLowerCase_unit a) = Canonicalize (toLowerCase_unit b)"
  have "unit (toLowerCase_unit a) = unit (toLowerCase_unit b)"
    by (subst Canonicalize_lowered_inverse [of a], subst Canonicalize_lowered_inverse [of b])
       (simp only: eq)
  then show "toLowerCase_unit a = toLowerCase_unit b" by (simp only: unit_inject)
next
  assume "toLowerCase_unit a = toLowerCase_unit b"
  then show "Canonicalize (toLowerCase_unit a) = Canonicalize (toLowerCase_unit b)" by simp
qed

lemma toLowerCase_unit_idem: "toLowerCase_unit (toLowerCase_unit c) = toLowerCase_unit c"
proof -
  define n where "n = unit (toLowerCase_unit c)"
  from lowered_range [OF n_def]
  have "\<not> ((65 \<le> n \<and> n \<le> 90) \<or> (192 \<le> n \<and> n \<le> 222 \<and> n \<noteq> 215))" by blast
  then show ?thesis unfolding n_def by (simp only: toLowerCase_unit_def Let_def if_False)
qed

subsection \<open>Literal patterns\<close>

text \<open>A literal pattern matches where \<open>matches_literally\<close> says; the global match then
  obeys the recursion of a scan that jumps behind each match.\<close>

declare RegExpMatchAll.simps [simp del]

lemmas RegExpExec_simps = RegExpExec.simps

declare RegExpExec.simps [simp del]

lemma startsWith_prefix: "startsWith s t \<longleftrightarrow> prefix t s"
  by (induction s t rule: startsWith.induct) auto

lemma includes_str_sublist: "includes_str s t \<longleftrightarrow> sublist t s"
  by (induction s) (simp_all add: startsWith_prefix sublist_Cons_right)

lemma matches_literally_length: "matches_literally t s \<Longrightarrow> length t \<le> length s"
  by (induction t s rule: matches_literally.induct) simp_all

lemma match_nodes_lit:
  "match_nodes (map lit t) s = (if matches_literally t s then [drop (length t) s] else [])"
proof (induction t s rule: matches_literally.induct)
  case (1 s)
  show ?case by simp
next
  case (2 p t)
  show ?case by (simp add: lit_def)
next
  case (3 p t c s)
  then show ?case by (simp add: lit_def)
qed

lemma match_here_RegExp_gi:
  "match_here (RegExp_gi t) s =
     (if matches_literally t s then Some (drop (length t) s, drop (length t) s) else None)"
  by (simp add: match_here_def RegExp_gi_def match_nodes_lit)

lemma RegExpExec_RegExp_gi_Cons:
  "RegExpExec (RegExp_gi t) (c # s) =
     (if matches_literally t (c # s)
      then Some \<lparr>matched = take (length t) (c # s), group1 = [], rest = drop (length t) (c # s)\<rparr>
      else RegExpExec (RegExp_gi t) s)"
proof (cases "matches_literally t (c # s)")
  case True
  from matches_literally_length [OF True]
  have "length (c # s) - length (drop (length t) (c # s)) = length t" by simp
  with True show ?thesis
    by (simp add: RegExpExec_simps match_here_RegExp_gi del: length_drop drop_Suc_Cons take_Suc_Cons)
next
  case False
  then show ?thesis by (simp add: RegExpExec_simps match_here_RegExp_gi)
qed

lemma RegExpExec_RegExp_gi_Nil: "t \<noteq> [] \<Longrightarrow> RegExpExec (RegExp_gi t) [] = None"
  by (cases t) (simp_all add: RegExpExec_simps match_here_RegExp_gi)

lemma RegExpMatchAll_RegExp_gi_Nil: "t \<noteq> [] \<Longrightarrow> RegExpMatchAll (RegExp_gi t) [] = []"
  by (subst RegExpMatchAll.simps) (simp add: RegExpExec_RegExp_gi_Nil)

lemma RegExpMatchAll_RegExp_gi_Cons:
  assumes "t \<noteq> []"
  shows "RegExpMatchAll (RegExp_gi t) (c # s) =
     (if matches_literally t (c # s)
      then take (length t) (c # s) # RegExpMatchAll (RegExp_gi t) (drop (length t) (c # s))
      else RegExpMatchAll (RegExp_gi t) s)"
proof (cases "matches_literally t (c # s)")
  case True
  from assms obtain p t' where t: "t = p # t'" by (cases t) auto
  from True show ?thesis
    by (subst RegExpMatchAll.simps) (simp add: RegExpExec_RegExp_gi_Cons t)
next
  case False
  then have "RegExpExec (RegExp_gi t) (c # s) = RegExpExec (RegExp_gi t) s"
    by (simp add: RegExpExec_RegExp_gi_Cons)
  then have "RegExpMatchAll (RegExp_gi t) (c # s) = RegExpMatchAll (RegExp_gi t) s"
    by (subst RegExpMatchAll.simps, subst (2) RegExpMatchAll.simps) (simp only:)
  with False show ?thesis by simp
qed

lemma toLowerCase_drop: "toLowerCase (drop k s) = drop k (toLowerCase s)"
  by (simp add: toLowerCase_def drop_map)

lemma toLowerCase_length [simp]: "length (toLowerCase s) = length s"
  by (simp add: toLowerCase_def)

lemma toLowerCase_idem: "toLowerCase (toLowerCase s) = toLowerCase s"
  by (simp add: toLowerCase_def toLowerCase_unit_idem)

text \<open>On lower-cased input a lower-case literal pattern matches exactly where it stands.\<close>

lemma matches_literally_lowered:
  "matches_literally (toLowerCase t) (toLowerCase s) \<longleftrightarrow> prefix (toLowerCase t) (toLowerCase s)"
proof (induction t s rule: matches_literally.induct)
  case (1 s)
  show ?case by (simp add: toLowerCase_def)
next
  case (2 p t)
  show ?case by (simp add: toLowerCase_def)
next
  case (3 p t c s)
  then show ?case by (auto simp: toLowerCase_def Canonicalize_lower_inject)
qed

lemma matches_literally_occurs_here:
  "toLowerCase t = t \<Longrightarrow> matches_literally t (toLowerCase s) \<longleftrightarrow> occurs_here t s"
  using matches_literally_lowered [of t s] by (simp add: occurs_here_def)

lemma prefix_matches_literally: "prefix t s \<Longrightarrow> matches_literally t s"
  by (induction t s rule: matches_literally.induct) simp_all

lemma scan_occurrences_skip: "scan_occurrences t k s = scan_occurrences t 0 (drop k s)"
proof (induction s arbitrary: k)
  case Nil
  show ?case by simp
next
  case (Cons c s)
  show ?case
  proof (cases k)
    case 0
    then show ?thesis by simp
  next
    case (Suc j)
    with Cons.IH [of j] show ?thesis by simp
  qed
qed

lemma scan_occurrences_Cons:
  assumes "t \<noteq> []"
  shows "scan_occurrences t 0 (c # s) =
     (if occurs_here t (c # s) then Suc (scan_occurrences t 0 (drop (length t) (c # s)))
      else scan_occurrences t 0 s)"
proof -
  from assms obtain p t' where t: "t = p # t'" by (cases t) auto
  show ?thesis using scan_occurrences_skip [of t "length t'" s] by (simp add: t)
qed

lemma length_RegExpMatchAll:
  assumes "t \<noteq> []" and "toLowerCase t = t"
  shows "length (RegExpMatchAll (RegExp_gi t) (toLowerCase s)) = disjoint_occurrences t s"
proof (induction "length s" arbitrary: s rule: less_induct)
  case less
  show ?case
  proof (cases s)
    case Nil
    with assms show ?thesis
      by (simp add: disjoint_occurrences_def RegExpMatchAll_RegExp_gi_Nil toLowerCase_def)
  next
    case (Cons c s')
    have low: "toLowerCase s = toLowerCase_unit c # toLowerCase s'"
      by (simp add: Cons toLowerCase_def)
    show ?thesis
    proof (cases "occurs_here t s")
      case True
      from assms(1) have "length (drop (length t) s) < length s" by (simp add: Cons)
      from less [OF this]
      have "length (RegExpMatchAll (RegExp_gi t) (drop (length t) (toLowerCase s))) =
          scan_occurrences t 0 (drop (length t) s)"
        by (simp add: toLowerCase_drop disjoint_occurrences_def)
      moreover from True have "matches_literally t (toLowerCase s)"
        by (simp add: matches_literally_occurs_here assms)
      ultimately show ?thesis
        using True RegExpMatchAll_RegExp_gi_Cons [OF assms(1), of "toLowerCase_unit c" "toLowerCase s'"]
          scan_occurrences_Cons [OF assms(1), of c s']
        unfolding low [symmetric] Cons [symmetric] disjoint_occurrences_def by simp
    next
      case False
      have "length s' < length s" by (simp add: Cons)
      from less [OF this]
      have "length (RegExpMatchAll (RegExp_gi t) (toLowerCase s')) = scan_occurrences t 0 s'"
        by (simp add: disjoint_occurrences_def)
      moreover from False have "\<not> matches_literally t (toLowerCase s)"
        by (simp add: matches_literally_occurs_here assms)
      ultimately show ?thesis
        using False RegExpMatchAll_RegExp_gi_Cons [OF assms(1), of "toLowerCase_unit c" "toLowerCase s'"]
          scan_occurrences_Cons [OF assms(1), of c s']
        unfolding low [symmetric] Cons [symmetric] disjoint_occurrences_def by simp
    qed
  qed
qed

lemma calculateConfidence_count:
  "calculateConfidence content t = min (length (RegExpMatchAll (RegExp_gi t) content) * 20) 100"
  by (simp add: calculateConfidence_def match_g_def split: list.splits)

subsection \<open>Occurrences that cannot overlap\<close>

text \<open>When no proper end of a term is also its start, two occurrences never share a
  unit, and counting without overlap counts them all.\<close>

lemma occurrences_drop:
  "\<forall>j < m. \<not> occurs_here t (drop j s) \<Longrightarrow> m \<le> length s \<Longrightarrow> occurrences t s = occurrences t (drop m s)"
proof (induction m arbitrary: s)
  case 0
  show ?case by simp
next
  case (Suc m)
  then obtain c s' where s: "s = c # s'" by (cases s) auto
  from Suc.prems(1) have "\<not> occurs_here t (drop 0 s)" by blast
  then have "occurrences t s = occurrences t s'" by (simp add: s)
  moreover have "\<forall>j < m. \<not> occurs_here t (drop j s')"
  proof (intro allI impI)
    fix j assume "j < m"
    then have "\<not> occurs_here t (drop (Suc j) s)" using Suc.prems(1) by simp
    then show "\<not> occurs_here t (drop j s')" by (simp add: s)
  qed
  with Suc.IH [of s'] Suc.prems(2) have "occurrences t s' = occurrences t (drop m s')"
    by (simp add: s)
  ultimately show ?case by (simp add: s)
qed

lemma self_overlapping_iff:
  "self_overlapping t \<longleftrightarrow> (\<exists>k. 0 < k \<and> k < length t \<and> prefix (drop k t) t)"
proof
  assume "self_overlapping t"
  then obtain k where "Suc 0 \<le> k" "k < length t" "prefix (drop k t) t"
    by (auto simp: self_overlapping_def list_ex_iff)
  then have "0 < k \<and> k < length t \<and> prefix (drop k t) t" by simp
  then show "\<exists>k. 0 < k \<and> k < length t \<and> prefix (drop k t) t" ..
next
  assume "\<exists>k. 0 < k \<and> k < length t \<and> prefix (drop k t) t"
  then show "self_overlapping t" by (auto simp: self_overlapping_def list_ex_iff)
qed

lemma no_overlap:
  assumes low: "toLowerCase t = t" and free: "\<not> self_overlapping t"
    and here: "occurs_here t s" and k: "0 < k" "k < length t"
  shows "\<not> occurs_here t (drop k s)"
proof
  assume "occurs_here t (drop k s)"
  then have later: "prefix t (drop k (toLowerCase s))"
    by (simp add: occurs_here_def low toLowerCase_drop)
  from here obtain r where r: "toLowerCase s = t @ r"
    by (auto simp: occurs_here_def low prefix_def)
  from k have "drop k (toLowerCase s) = drop k t @ r" by (simp add: r)
  with later have "prefix t (drop k t @ r)" by simp
  moreover have "prefix (drop k t) (drop k t @ r)" by simp
  moreover have "length (drop k t) \<le> length t" by simp
  ultimately have "prefix (drop k t) t" by (metis prefix_length_prefix)
  with k free show False by (auto simp: self_overlapping_iff)
qed

lemma disjoint_occurrences_all:
  assumes ne: "t \<noteq> []" and low: "toLowerCase t = t" and free: "\<not> self_overlapping t"
  shows "disjoint_occurrences t s = occurrences t s"
proof (induction "length s" arbitrary: s rule: less_induct)
  case less
  show ?case
  proof (cases s)
    case Nil
    with ne low show ?thesis
      by (simp add: disjoint_occurrences_def occurs_here_def toLowerCase_def)
  next
    case (Cons c s')
    show ?thesis
    proof (cases "occurs_here t s")
      case True
      then have len: "length t \<le> length s"
        using prefix_length_le [of "toLowerCase t" "toLowerCase s"] by (simp add: occurs_here_def)
      from ne have "length (drop (length t) s) < length s" by (simp add: Cons)
      from less [OF this]
      have IH: "scan_occurrences t 0 (drop (length t) s) = occurrences t (drop (length t) s)"
        by (simp add: disjoint_occurrences_def)
      have "\<forall>j < length t - 1. \<not> occurs_here t (drop j s')"
      proof (intro allI impI)
        fix j assume "j < length t - 1"
        then have "\<not> occurs_here t (drop (Suc j) s)"
          by (intro no_overlap [OF low free True]) simp_all
        then show "\<not> occurs_here t (drop j s')" by (simp add: Cons)
      qed
      moreover from len have "length t - 1 \<le> length s'" by (simp add: Cons)
      ultimately have "occurrences t s' = occurrences t (drop (length t - 1) s')"
        by (rule occurrences_drop)
      moreover from ne have "drop (length t - 1) s' = drop (length t) s"
        by (cases t) (simp_all add: Cons)
      ultimately show ?thesis
        using True IH scan_occurrences_Cons [OF ne, of c s']
        by (simp add: disjoint_occurrences_def Cons)
    next
      case False
      have "length s' < length s" by (simp add: Cons)
      from less [OF this] False show ?thesis
        using scan_occurrences_Cons [OF ne, of c s']
        by (simp add: disjoint_occurrences_def Cons)
    qed
  qed
qed

lemma conditions_lower: "\<forall>t \<in> set MEDICAL_TERMS_conditions. t \<noteq> [] \<and> toLowerCase t = t"
  by (simp add: MEDICAL_TERMS_conditions_def toLowerCase_def toLowerCase_unit_def unit_def)

lemma riskFactors_lower: "\<forall>t \<in> set MEDICAL_TERMS_riskFactors. t \<noteq> [] \<and> toLowerCase t = t"
  by (simp add: MEDICAL_TERMS_riskFactors_def toLowerCase_def toLowerCase_unit_def unit_def)

lemma conditions_overlap:
  "\<forall>t \<in> set MEDICAL_TERMS_conditions. self_overlapping t \<longleftrightarrow> t = ''asthma''"
  by code_simp

lemma conditions_plain:
  "\<forall>t \<in> set MEDICAL_TERMS_conditions. \<forall>c \<in> set t. c \<notin> set syntax_characters"
  by code_simp

subsection \<open>Joining, digits, evaluation\<close>

lemma join_loop_pos: "k > 0 \<Longrightarrow> join_loop sep k xs R = R @ concat (map ((@) sep) xs)"
  by (induction xs arbitrary: k R) simp_all

lemma sep_join_Cons: "sep_join sep (x # xs) = x @ concat (map ((@) sep) xs)"
  by (induction xs arbitrary: x) simp_all

lemma join_sep_join: "join xs sep = sep_join sep xs"
  by (cases xs) (simp_all add: join_def join_loop_pos sep_join_Cons)

lemma digits_small: "n < 10 \<Longrightarrow> digits n = [char_of (48 + n)]"
  by simp

lemma digits_large: "\<not> n < 10 \<Longrightarrow> digits n = digits (n div 10) @ [char_of (48 + n mod 10)]"
  by simp

declare digits.simps [simp del]

text \<open>\<open>trim\<close> takes white space off both ends and nothing else.\<close>

lemma last_dropWhile: "dropWhile P xs \<noteq> [] \<Longrightarrow> last (dropWhile P xs) = last xs"
  by (induction xs) (auto split: if_splits)

lemma trim_split:
  "s = takeWhile isWhiteSpace s @ trim s
       @ rev (takeWhile isWhiteSpace (rev (dropWhile isWhiteSpace s)))"
proof -
  define d where "d = dropWhile isWhiteSpace s"
  have "rev (takeWhile isWhiteSpace (rev d) @ dropWhile isWhiteSpace (rev d)) = rev (rev d)"
    by (simp only: takeWhile_dropWhile_id)
  then have "rev (dropWhile isWhiteSpace (rev d)) @ rev (takeWhile isWhiteSpace (rev d)) = d"
    by (simp only: rev_append rev_rev_ident)
  then have "trim s @ rev (takeWhile isWhiteSpace (rev d)) = d"
    by (simp only: trim_def d_def)
  moreover have "s = takeWhile isWhiteSpace s @ d" by (simp add: d_def)
  ultimately show ?thesis unfolding d_def by simp
qed

lemma trim_ends:
  assumes "trim s \<noteq> []"
  shows "\<not> isWhiteSpace (hd (trim s))" and "\<not> isWhiteSpace (last (trim s))"
proof -
  define d where "d = dropWhile isWhiteSpace s"
  define e where "e = dropWhile isWhiteSpace (rev d)"
  have t: "trim s = rev e" by (simp add: trim_def d_def e_def)
  with assms have e: "e \<noteq> []" by simp
  then have "\<not> isWhiteSpace (hd e)" unfolding e_def by (rule hd_dropWhile)
  with e show "\<not> isWhiteSpace (last (trim s))" by (simp add: t last_rev)
  from e have d: "d \<noteq> []" by (auto simp: e_def)
  from e have "last e = last (rev d)" unfolding e_def by (rule last_dropWhile)
  with d have "last e = hd d" by (simp add: last_rev)
  moreover from d have "\<not> isWhiteSpace (hd d)" unfolding d_def by (rule hd_dropWhile)
  ultimately show "\<not> isWhiteSpace (hd (trim s))" using e by (simp add: t hd_rev)
qed

text \<open>Facts for evaluating the key patterns on a text whose end is not known.\<close>

lemma RepeatMatcher_done: "RepeatMatcher a lo (Some 0) s = [s]"
  by (cases s) simp_all

lemmas regexp_eval =
  match_first_def RegExpExec_simps match_here_def lit_def class_s_def class_d_def
  Canonicalize_def unit_def trim_def isWhiteSpace_def char_of_eq_iff Let_def

subsection \<open>The analysis\<close>

lemma performDetailedAnalysis_fields:
  assumes "performDetailedAnalysis rf content = Inr r"
  shows "medicalTerms r =
           filter (\<lambda>t. includes_str (toLowerCase content) (toLowerCase t)) MEDICAL_TERMS_conditions"
    and "riskFactors r =
           filter (\<lambda>t. includes_str (toLowerCase content) (toLowerCase t)) MEDICAL_TERMS_riskFactors"
    and "potentialConditions r =
           map (\<lambda>t. \<lparr>name = t, confidence = calculateConfidence (toLowerCase content) t\<rparr>)
             (medicalTerms r)"
    and "keyInformations r = extractKeyInformations content"
    and "recommendations r = generateRecommendations (medicalTerms r) (riskFactors r)"
  using assms by (auto simp: performDetailedAnalysis_def Let_def split: option.splits)

lemma performDetailedAnalysis_Some: "\<exists>r. performDetailedAnalysis (Some file) content = Inr r"
  by (simp add: performDetailedAnalysis_def Let_def)

lemma performDetailedAnalysis_None: "performDetailedAnalysis None content = Inl TypeError"
  by (simp add: performDetailedAnalysis_def Let_def)

lemma filter_includes_conditions:
  "filter (\<lambda>t. includes_str s (toLowerCase t)) MEDICAL_TERMS_conditions =
     filter (\<lambda>t. sublist t s) MEDICAL_TERMS_conditions"
  using conditions_lower by (intro filter_cong) (simp_all add: includes_str_sublist)

lemma filter_includes_riskFactors:
  "filter (\<lambda>t. includes_str s (toLowerCase t)) MEDICAL_TERMS_riskFactors =
     filter (\<lambda>t. sublist t s) MEDICAL_TERMS_riskFactors"
  using riskFactors_lower by (intro filter_cong) (simp_all add: includes_str_sublist)

lemma medicalTerms_filter:
  assumes "performDetailedAnalysis rf content = Inr r"
  shows "medicalTerms r = filter (\<lambda>t. sublist t (toLowerCase content)) MEDICAL_TERMS_conditions"
  using performDetailedAnalysis_fields(1) [OF assms] by (simp only: filter_includes_conditions)

lemma riskFactors_filter:
  assumes "performDetailedAnalysis rf content = Inr r"
  shows "riskFactors r = filter (\<lambda>t. sublist t (toLowerCase content)) MEDICAL_TERMS_riskFactors"
  using performDetailedAnalysis_fields(2) [OF assms] by (simp only: filter_includes_riskFactors)

lemma sample_conditions:
  "filter (\<lambda>t. sublist t (toLowerCase ''Type 2 Diabetes; quit Smoking'')) MEDICAL_TERMS_conditions
     = [''diabetes'']"
  by code_simp

lemma sample_riskFactors:
  "filter (\<lambda>t. sublist t (toLowerCase ''Type 2 Diabetes; quit Smoking'')) MEDICAL_TERMS_riskFactors
     = [''smoking'']"
  by code_simp

lemma RegExpMatchAll_found:
  assumes "t \<noteq> []"
  shows "sublist t s \<Longrightarrow> RegExpMatchAll (RegExp_gi t) s \<noteq> []"
proof (induction s)
  case Nil
  with assms show ?case by simp
next
  case (Cons c s)
  show ?case
  proof (cases "matches_literally t (c # s)")
    case True
    then show ?thesis by (simp add: RegExpMatchAll_RegExp_gi_Cons [OF assms])
  next
    case False
    then have "\<not> prefix t (c # s)" using prefix_matches_literally by blast
    with Cons.prems have "sublist t s" by (simp add: sublist_Cons_right)
    with Cons.IH False show ?thesis by (simp add: RegExpMatchAll_RegExp_gi_Cons [OF assms])
  qed
qed

lemma capped_score:
  fixes n :: nat
  assumes "1 \<le> n"
  shows "min (n * 20) 100 \<in> {20, 40, 60, 80, 100}"
proof -
  consider "n = 1" | "n = 2" | "n = 3" | "n = 4" | "5 \<le> n" using assms by linarith
  then show ?thesis by cases simp_all
qed

subsection \<open>Upload and sample evaluations\<close>

text \<open>The extension is always defined; an upload whose content is read ends in the
  analysis, which sees the file of the render before.\<close>

lemma pop_last: "pop xs = (if xs = [] then None else Some (last xs))"
  by (induction xs rule: pop.induct) simp_all

lemma split_loop_nonempty: "split_loop sep cur s \<noteq> []"
  by (induction s arbitrary: cur) simp_all

lemma fileExtension_last:
  "fileExtension file = Inr (toLowerCase (last (split (file_name file) CHR ''.'')))"
  by (simp add: fileExtension_def pop_last split_def split_loop_nonempty)

lemma report_txt_extension: "fileExtension (report_txt content) = Inr ''txt''"
  by (simp add: fileExtension_last report_txt_def split_def toLowerCase_def toLowerCase_unit_def
      unit_def)

lemma report_txt_read: "read_content ''txt'' (report_txt content) = Inr (Resolved content)"
  by (simp add: read_content_def parseTextFile_def report_txt_def)

lemma scan_pdf_extension: "toLowerCase (last (split (file_name scan_pdf) CHR ''.'')) = ''pdf''"
  by (simp add: scan_pdf_def split_def toLowerCase_def toLowerCase_unit_def unit_def char_of_eq_iff)

lemma upload_resolved:
  assumes "fileExtension file = Inr ext" and "read_content ext file = Inr (Resolved content)"
  shows "handleFileUpload (Some file) st =
     (case performDetailedAnalysis (reportFile st) content of
        Inl e \<Rightarrow> st\<lparr>reportFile := Some file, fileContent := content, isAnalyzing := False,
                  alerts := alerts st @ [e]\<rparr>
      | Inr results \<Rightarrow> st\<lparr>reportFile := Some file, fileContent := content,
                  analysisResults := results, isAnalyzing := False\<rparr>)"
  using assms
  by (simp add: handleFileUpload_def parseFile_def catch_finally_def Let_def split: sum.splits)

lemma upload_reportFile: "reportFile (handleFileUpload (Some file) st) = Some file"
  by (simp add: handleFileUpload_def parseFile_def catch_finally_def Let_def
      split: sum.splits promise.splits)

lemma upload_shows_previous_file:
  assumes "fileExtension file = Inr ext" and "read_content ext file = Inr (Resolved content)"
    and "reportFile st = Some g"
  shows "fileType (analysisResults (handleFileUpload (Some file) st)) = file_type g"
    and "fileSize (analysisResults (handleFileUpload (Some file) st)) =
           toFixed2_div1024 (file_size g) @ '' KB''"
    and "medicalTerms (analysisResults (handleFileUpload (Some file) st)) =
           filter (\<lambda>t. sublist t (toLowerCase content)) MEDICAL_TERMS_conditions"
proof -
  obtain r where r: "performDetailedAnalysis (Some g) content = Inr r"
    using performDetailedAnalysis_Some by blast
  then have a: "analysisResults (handleFileUpload (Some file) st) = r"
    by (simp add: upload_resolved [OF assms(1,2)] assms(3))
  from r show "fileType (analysisResults (handleFileUpload (Some file) st)) = file_type g"
    and "fileSize (analysisResults (handleFileUpload (Some file) st)) =
           toFixed2_div1024 (file_size g) @ '' KB''"
    unfolding a by (auto simp: performDetailedAnalysis_def Let_def)
  from medicalTerms_filter [OF r]
  show "medicalTerms (analysisResults (handleFileUpload (Some file) st)) =
           filter (\<lambda>t. sublist t (toLowerCase content)) MEDICAL_TERMS_conditions"
    unfolding a .
qed

lemma upload_without_previous_file:
  assumes "fileExtension file = Inr ext" and "read_content ext file = Inr (Resolved content)"
    and "reportFile st = None"
  shows "analysisResults (handleFileUpload (Some file) st) = analysisResults st"
    and "alerts (handleFileUpload (Some file) st) = alerts st @ [TypeError]"
  by (simp_all add: upload_resolved [OF assms(1,2)] assms(3) performDetailedAnalysis_None)

lemma six_mentions_terms:
  "filter (\<lambda>t. sublist t (toLowerCase six_mentions)) MEDICAL_TERMS_conditions = [''diabetes'']"
  by code_simp

lemma six_mentions_count: "disjoint_occurrences ''diabetes'' six_mentions = 6"
  by code_simp

lemma overlap_terms:
  "filter (\<lambda>term. includes_str (toLowerCase ''asthmasthma'') (toLowerCase term))
     MEDICAL_TERMS_conditions = [''asthma'']"
  by code_simp

lemma overlap_confidence: "calculateConfidence (toLowerCase ''asthmasthma'') ''asthma'' = 20"
  by code_simp

lemma overlap_occurrences: "occurrences ''asthma'' ''asthmasthma'' = 2"
  by code_simp

lemma two_mentions_terms:
  "filter (\<lambda>t. sublist t (toLowerCase two_mentions)) MEDICAL_TERMS_conditions = [''cancer'']"
  by code_simp

lemma two_mentions_confidence: "calculateConfidence (toLowerCase two_mentions) ''cancer'' = 40"
  by code_simp

lemma diabetes_terms:
  "filter (\<lambda>t. sublist t (toLowerCase ''diabetes'')) MEDICAL_TERMS_conditions = [''diabetes'']"
  by code_simp

section \<open>The properties\<close>

text \<open>C8: CSV ingestion turns the parsed rows into one string: the fields of each row
  joined by a single space, the rows joined by a newline.\<close>

theorem parseCSV_rows:
  assumes "papa_data file = Resolved data"
  shows "parseCSV file = Resolved (sep_join ''\<newline>'' (map (sep_join '' '') data))"
proof -
  have "map (\<lambda>row. join row '' '') data = map (sep_join '' '') data"
    by (simp add: join_sep_join)
  with assms show ?thesis by (simp add: parseCSV_def join_sep_join)
qed

theorem parseCSV_rows_witness:
  "parseCSV \<lparr>file_name = ''labs.csv'', file_type = ''text/csv'', file_size = 20,
      text_read = Pending, papa_data = Resolved [[''Age'', ''47''], [''asthma'']],
      sheet_csvs = Pending\<rparr> = Resolved ''Age 47\<newline>asthma''"
  using parseCSV_rows [of "\<lparr>file_name = ''labs.csv'', file_type = ''text/csv'', file_size = 20,
      text_read = Pending, papa_data = Resolved [[''Age'', ''47''], [''asthma'']],
      sheet_csvs = Pending\<rparr>" "[[''Age'', ''47''], [''asthma'']]"]
  by simp

text \<open>C3: for every pair of lists, the recommendations contain exactly one
  specialist-consultation line when there are conditions and none otherwise, exactly
  two lifestyle and check-up lines when there are risk factors and none otherwise, and
  are the single default line when both lists are empty.\<close>

theorem recommendations_lines:
  "length (filter is_specialist_line (generateRecommendations conditions risk)) =
     (if conditions = [] then 0 else 1)
   \<and> length (filter is_lifestyle_line (generateRecommendations conditions risk)) =
     (if risk = [] then 0 else 2)
   \<and> (conditions = [] \<and> risk = [] \<longrightarrow>
        generateRecommendations conditions risk = [default_line])"
  by (simp add: generateRecommendations_def default_line_def is_specialist_line_def
      is_lifestyle_line_def)

theorem recommendations_lines_witness:
  "length (filter is_specialist_line (generateRecommendations [''asthma'', ''cancer''] [])) = 1
   \<and> length (filter is_lifestyle_line (generateRecommendations [''asthma'', ''cancer''] [])) = 0
   \<and> length (filter is_lifestyle_line (generateRecommendations [] [''smoking''])) = 2
   \<and> generateRecommendations [] [] = [default_line]"
  using recommendations_lines [of "[''asthma'', ''cancer'']" "[]"]
    recommendations_lines [of "[]" "[''smoking'']"] recommendations_lines [of "[]" "[]"]
  by simp

text \<open>C10: for every input, key-information extraction returns exactly four entries,
  labelled Patient Name, Age, Gender, Date in this order.\<close>

theorem key_labels:
  "map label (extractKeyInformations content) = [''Patient Name'', ''Age'', ''Gender'', ''Date'']
   \<and> length (extractKeyInformations content) = 4"
  by (simp add: extractKeyInformations_def keyPatterns_def)

text \<open>C2: a term of the condition vocabulary is in \<open>medicalTerms\<close> exactly when the
  lower-cased content contains it as a substring, and likewise for the risk factors
  and \<open>riskFactors\<close>; both lists are the vocabulary filtered, so they keep its order and
  hold nothing else.\<close>

theorem matched_terms:
  assumes "performDetailedAnalysis rf content = Inr r"
  shows "medicalTerms r = filter (\<lambda>t. sublist t (toLowerCase content)) MEDICAL_TERMS_conditions
    \<and> riskFactors r = filter (\<lambda>t. sublist t (toLowerCase content)) MEDICAL_TERMS_riskFactors
    \<and> (\<forall>t \<in> set MEDICAL_TERMS_conditions.
          t \<in> set (medicalTerms r) \<longleftrightarrow> sublist t (toLowerCase content))
    \<and> (\<forall>t \<in> set MEDICAL_TERMS_riskFactors.
          t \<in> set (riskFactors r) \<longleftrightarrow> sublist t (toLowerCase content))
    \<and> set (medicalTerms r) \<subseteq> set MEDICAL_TERMS_conditions
    \<and> set (riskFactors r) \<subseteq> set MEDICAL_TERMS_riskFactors"
  by (intro conjI) (simp_all add: medicalTerms_filter [OF assms] riskFactors_filter [OF assms])

theorem matched_terms_witness:
  "\<exists>r. performDetailedAnalysis (Some (report_txt ''Type 2 Diabetes; quit Smoking''))
          ''Type 2 Diabetes; quit Smoking'' = Inr r
     \<and> medicalTerms r = [''diabetes''] \<and> riskFactors r = [''smoking'']"
proof -
  obtain r where r: "performDetailedAnalysis (Some (report_txt ''Type 2 Diabetes; quit Smoking''))
      ''Type 2 Diabetes; quit Smoking'' = Inr r"
    using performDetailedAnalysis_Some by blast
  from matched_terms [OF r] have "medicalTerms r = [''diabetes'']" "riskFactors r = [''smoking'']"
    by (simp_all only: sample_conditions sample_riskFactors)
  with r show ?thesis by blast
qed

text \<open>C9: every entry of \<open>potentialConditions\<close> has a confidence that is a positive
  multiple of 20, at least 20: a listed term occurs in the lower-cased content, so it
  is counted at least once.\<close>

theorem listed_condition_confidence:
  assumes "performDetailedAnalysis rf content = Inr r" and "e \<in> set (potentialConditions r)"
  shows "confidence e \<in> {20, 40, 60, 80, 100} \<and> 20 \<le> confidence e \<and> 20 dvd confidence e
    \<and> sublist (name e) (toLowerCase content)"
proof -
  from assms obtain t where t: "t \<in> set (medicalTerms r)"
    and e: "e = \<lparr>name = t, confidence = calculateConfidence (toLowerCase content) t\<rparr>"
    by (auto simp: performDetailedAnalysis_fields(3) [OF assms(1)])
  from t have voc: "t \<in> set MEDICAL_TERMS_conditions" and sub: "sublist t (toLowerCase content)"
    by (simp_all add: medicalTerms_filter [OF assms(1)])
  from voc conditions_lower have ne: "t \<noteq> []" by blast
  from RegExpMatchAll_found [OF ne sub]
  have "1 \<le> length (RegExpMatchAll (RegExp_gi t) (toLowerCase content))"
    by (cases "RegExpMatchAll (RegExp_gi t) (toLowerCase content)") simp_all
  from capped_score [OF this]
  have c: "confidence e \<in> {20, 40, 60, 80, 100}"
    by (simp add: e calculateConfidence_count)
  then have "20 \<le> confidence e" "20 dvd confidence e" by auto
  with c sub show ?thesis by (simp add: e)
qed

theorem listed_condition_confidence_witness:
  "\<exists>r. performDetailedAnalysis (Some (report_txt two_mentions)) two_mentions = Inr r
     \<and> potentialConditions r = [\<lparr>name = ''cancer'', confidence = 40\<rparr>]
     \<and> (20::nat) \<le> 40 \<and> (20::nat) dvd 40"
proof -
  obtain r where r: "performDetailedAnalysis (Some (report_txt two_mentions)) two_mentions = Inr r"
    using performDetailedAnalysis_Some by blast
  have p: "potentialConditions r = [\<lparr>name = ''cancer'', confidence = 40\<rparr>]"
    by (simp add: performDetailedAnalysis_fields(3) [OF r] medicalTerms_filter [OF r]
        two_mentions_terms two_mentions_confidence)
  then have "\<lparr>name = ''cancer'', confidence = 40\<rparr> \<in> set (potentialConditions r)" by simp
  from listed_condition_confidence [OF r this] have "(20::nat) \<le> 40 \<and> (20::nat) dvd 40" by simp
  with r p show ?thesis by blast
qed

text \<open>C1, amended: for every content and every matched condition term the confidence is
  \<open>min (20 * n) 100\<close>, where \<open>n\<close> counts the occurrences of the term, ignoring case,
  from left to right without overlap; for every term of the vocabulary but \<open>asthma\<close>
  this is the number of all occurrences. The score never exceeds 100 and grows with
  \<open>n\<close>.\<close>

theorem confidence_score:
  assumes "performDetailedAnalysis rf content = Inr r" and "e \<in> set (potentialConditions r)"
  shows "name e \<in> set MEDICAL_TERMS_conditions
    \<and> confidence e = min (20 * disjoint_occurrences (name e) content) 100
    \<and> (name e \<noteq> ''asthma'' \<longrightarrow>
          disjoint_occurrences (name e) content = occurrences (name e) content)
    \<and> confidence e \<le> 100
    \<and> (\<forall>rf' content' r' e'.
          performDetailedAnalysis rf' content' = Inr r' \<and> e' \<in> set (potentialConditions r')
          \<and> name e' = name e
          \<and> disjoint_occurrences (name e) content \<le> disjoint_occurrences (name e) content'
          \<longrightarrow> confidence e \<le> confidence e')"
proof -
  have score: "name x \<in> set MEDICAL_TERMS_conditions
      \<and> confidence x = min (20 * disjoint_occurrences (name x) c) 100"
    if run: "performDetailedAnalysis f c = Inr a" and mem: "x \<in> set (potentialConditions a)"
    for f c a x
  proof -
    from mem obtain t where t: "t \<in> set (medicalTerms a)"
      and x: "x = \<lparr>name = t, confidence = calculateConfidence (toLowerCase c) t\<rparr>"
      by (auto simp: performDetailedAnalysis_fields(3) [OF run])
    from t have voc: "t \<in> set MEDICAL_TERMS_conditions"
      by (simp add: medicalTerms_filter [OF run])
    with conditions_lower have "t \<noteq> []" and "toLowerCase t = t" by blast+
    then have "length (RegExpMatchAll (RegExp_gi t) (toLowerCase c)) = disjoint_occurrences t c"
      by (rule length_RegExpMatchAll)
    with voc show ?thesis by (simp add: x calculateConfidence_count mult.commute)
  qed
  note here = score [OF assms]
  have all: "disjoint_occurrences (name e) content = occurrences (name e) content"
    if "name e \<noteq> ''asthma''"
  proof -
    from here conditions_lower have "name e \<noteq> []" and "toLowerCase (name e) = name e" by blast+
    moreover from here that conditions_overlap have "\<not> self_overlapping (name e)" by blast
    ultimately show ?thesis by (rule disjoint_occurrences_all)
  qed
  have mono: "confidence e \<le> confidence e'"
    if "performDetailedAnalysis rf' content' = Inr r'" and "e' \<in> set (potentialConditions r')"
      and "name e' = name e"
      and "disjoint_occurrences (name e) content \<le> disjoint_occurrences (name e) content'"
    for rf' content' r' e'
    using here score [OF that(1,2)] that(3,4) by simp
  from here all mono show ?thesis by (intro conjI) (simp, simp, blast, simp, blast)
qed

theorem confidence_score_witness:
  "\<exists>r e. performDetailedAnalysis (Some (report_txt six_mentions)) six_mentions = Inr r
     \<and> e \<in> set (potentialConditions r) \<and> name e = ''diabetes'' \<and> confidence e = 100
     \<and> occurrences ''diabetes'' six_mentions = 6"
proof -
  obtain r where r: "performDetailedAnalysis (Some (report_txt six_mentions)) six_mentions = Inr r"
    using performDetailedAnalysis_Some by blast
  define e where
    "e = \<lparr>name = ''diabetes'',
          confidence = calculateConfidence (toLowerCase six_mentions) ''diabetes''\<rparr>"
  have mem: "e \<in> set (potentialConditions r)"
    by (simp add: performDetailedAnalysis_fields(3) [OF r] medicalTerms_filter [OF r]
        six_mentions_terms e_def)
  have n: "name e = ''diabetes''" by (simp add: e_def)
  from confidence_score [OF r mem]
  have "confidence e = 100" and "occurrences ''diabetes'' six_mentions = 6"
    by (simp_all add: n six_mentions_count)
  with r mem n show ?thesis by blast
qed

text \<open>C1 as stated fails when \<open>n\<close> counts every occurrence: \<open>asthma\<close> occurs twice in
  \<open>asthmasthma\<close>, the two occurrences sharing a letter, and the score is 20, not 40.\<close>

theorem confidence_counterexample:
  "(case performDetailedAnalysis (Some (report_txt ''asthmasthma'')) ''asthmasthma'' of
      Inl x \<Rightarrow> False
    | Inr r \<Rightarrow> potentialConditions r = [\<lparr>name = ''asthma'', confidence = 20\<rparr>])
   \<and> occurrences ''asthma'' ''asthmasthma'' = 2
   \<and> min (20 * occurrences ''asthma'' ''asthmasthma'') 100 = 40"
proof -
  obtain r where r: "performDetailedAnalysis (Some (report_txt ''asthmasthma'')) ''asthmasthma'' = Inr r"
    using performDetailedAnalysis_Some by blast
  have "potentialConditions r = [\<lparr>name = ''asthma'', confidence = 20\<rparr>]"
    by (simp only: performDetailedAnalysis_fields(3) [OF r] performDetailedAnalysis_fields(1) [OF r]
        overlap_terms overlap_confidence list.map)
  moreover have "min (20 * 2) 100 = (40::nat)" by simp
  ultimately show ?thesis by (simp only: r sum.case overlap_occurrences simp_thms)
qed

text \<open>C4, amended: applied to any text that begins with the lines \<open>Patient Name: Jane
  Doe\<close>, \<open>Age: 47\<close>, \<open>Gender: Female\<close>, \<open>Date: 04/02/1990\<close> (whatever follows them),
  key-information extraction yields exactly the values \<open>Jane Doe\<close>, \<open>47\<close>, \<open>Female\<close>,
  \<open>04/02/1990\<close>; and for every input, each label's value is decided by its own pattern
  alone: \<open>Not Found\<close> when the pattern has no match, and otherwise the first captured
  group of the leftmost match, trimmed. Trimming is at work: with CR LF line ends and
  blanks behind \<open>Female\<close> the groups captured are \<open>Jane Doe\<close> with a CR and \<open>Female\<close> with
  two blanks and a CR, and the values are the same four; in \<open>Gender:\<close> with two blanks
  the group is one blank and the value is empty. \<open>trim\<close> removes white space (TAB, LF, VT,
  FF, CR, SP, NBSP) from both ends and nothing else: the text is white space, the
  trimmed text, white space, and a non-empty trimmed text neither begins nor ends with
  white space.\<close>

theorem key_information_values:
  "extractKeyInformations (jane_doe_report @ after) =
     [\<lparr>label = ''Patient Name'', value' = ''Jane Doe''\<rparr>,
      \<lparr>label = ''Age'', value' = ''47''\<rparr>,
      \<lparr>label = ''Gender'', value' = ''Female''\<rparr>,
      \<lparr>label = ''Date'', value' = ''04/02/1990''\<rparr>]
   \<and> list_all2 (\<lambda>(l, re) e. label e = l \<and>
         value' e = (case match_first content re of
                       None \<Rightarrow> ''Not Found''
                     | Some m \<Rightarrow> trim (group1 m)))
       keyPatterns (extractKeyInformations content)
   \<and> map (\<lambda>(l, re). map_option group1 (match_first (jane_doe_report_crlf @ after) re))
         keyPatterns =
       [Some (''Jane Doe'' @ [CHR 0x0D]), Some ''47'', Some (''Female  '' @ [CHR 0x0D]),
        Some ''04/02/1990'']
   \<and> extractKeyInformations (jane_doe_report_crlf @ after) =
     [\<lparr>label = ''Patient Name'', value' = ''Jane Doe''\<rparr>,
      \<lparr>label = ''Age'', value' = ''47''\<rparr>,
      \<lparr>label = ''Gender'', value' = ''Female''\<rparr>,
      \<lparr>label = ''Date'', value' = ''04/02/1990''\<rparr>]
   \<and> map (\<lambda>(l, re). map_option group1 (match_first ''Gender:  '' re)) keyPatterns =
       [None, None, Some '' '', None]
   \<and> extractKeyInformations ''Gender:  '' =
     [\<lparr>label = ''Patient Name'', value' = ''Not Found''\<rparr>,
      \<lparr>label = ''Age'', value' = ''Not Found''\<rparr>,
      \<lparr>label = ''Gender'', value' = []\<rparr>,
      \<lparr>label = ''Date'', value' = ''Not Found''\<rparr>]
   \<and> (\<exists>a b. s = a @ trim s @ b \<and> list_all isWhiteSpace a \<and> list_all isWhiteSpace b)
   \<and> (trim s \<noteq> [] \<longrightarrow> \<not> isWhiteSpace (hd (trim s)) \<and> \<not> isWhiteSpace (last (trim s)))
   \<and> trim (map char_of [9, 10, 11, 12, 13, 32, 160 :: nat] @ ''Jane  Doe''
           @ map char_of [160, 32, 13, 12, 11, 10, 9 :: nat]) = ''Jane  Doe''"
proof (intro conjI)
  show "extractKeyInformations (jane_doe_report @ after) =
     [\<lparr>label = ''Patient Name'', value' = ''Jane Doe''\<rparr>,
      \<lparr>label = ''Age'', value' = ''47''\<rparr>,
      \<lparr>label = ''Gender'', value' = ''Female''\<rparr>,
      \<lparr>label = ''Date'', value' = ''04/02/1990''\<rparr>]"
    by (simp add: extractKeyInformations_def keyPatterns_def jane_doe_report_def regexp_eval
        RepeatMatcher_done)
  show "list_all2 (\<lambda>(l, re) e. label e = l \<and>
         value' e = (case match_first content re of
                       None \<Rightarrow> ''Not Found''
                     | Some m \<Rightarrow> trim (group1 m)))
       keyPatterns (extractKeyInformations content)"
    by (auto simp: extractKeyInformations_def list_all2_map2 list_all2_same)
  show "map (\<lambda>(l, re). map_option group1 (match_first (jane_doe_report_crlf @ after) re))
         keyPatterns =
       [Some (''Jane Doe'' @ [CHR 0x0D]), Some ''47'', Some (''Female  '' @ [CHR 0x0D]),
        Some ''04/02/1990'']"
    by (simp add: keyPatterns_def jane_doe_report_crlf_def regexp_eval RepeatMatcher_done)
  show "extractKeyInformations (jane_doe_report_crlf @ after) =
     [\<lparr>label = ''Patient Name'', value' = ''Jane Doe''\<rparr>,
      \<lparr>label = ''Age'', value' = ''47''\<rparr>,
      \<lparr>label = ''Gender'', value' = ''Female''\<rparr>,
      \<lparr>label = ''Date'', value' = ''04/02/1990''\<rparr>]"
    by (simp add: extractKeyInformations_def keyPatterns_def jane_doe_report_crlf_def
        regexp_eval RepeatMatcher_done)
  show "map (\<lambda>(l, re). map_option group1 (match_first ''Gender:  '' re)) keyPatterns =
       [None, None, Some '' '', None]"
    by (simp add: keyPatterns_def regexp_eval)
  show "extractKeyInformations ''Gender:  '' =
     [\<lparr>label = ''Patient Name'', value' = ''Not Found''\<rparr>,
      \<lparr>label = ''Age'', value' = ''Not Found''\<rparr>,
      \<lparr>label = ''Gender'', value' = []\<rparr>,
      \<lparr>label = ''Date'', value' = ''Not Found''\<rparr>]"
    by (simp add: extractKeyInformations_def keyPatterns_def regexp_eval)
  have "s = takeWhile isWhiteSpace s @ trim s
       @ rev (takeWhile isWhiteSpace (rev (dropWhile isWhiteSpace s)))
    \<and> list_all isWhiteSpace (takeWhile isWhiteSpace s)
    \<and> list_all isWhiteSpace (rev (takeWhile isWhiteSpace (rev (dropWhile isWhiteSpace s))))"
    using trim_split [of s] by (auto simp: list_all_iff dest: set_takeWhileD)
  then show "\<exists>a b. s = a @ trim s @ b \<and> list_all isWhiteSpace a \<and> list_all isWhiteSpace b"
    by blast
  show "trim s \<noteq> [] \<longrightarrow> \<not> isWhiteSpace (hd (trim s)) \<and> \<not> isWhiteSpace (last (trim s))"
    using trim_ends [of s] by blast
  show "trim (map char_of [9, 10, 11, 12, 13, 32, 160 :: nat] @ ''Jane  Doe''
           @ map char_of [160, 32, 13, 12, 11, 10, 9 :: nat]) = ''Jane  Doe''"
    by (simp add: trim_def isWhiteSpace_def unit_def)
qed

theorem key_information_values_witness:
  "extractKeyInformations (jane_doe_report_crlf @ ''\<newline>Notes: none'') =
     [\<lparr>label = ''Patient Name'', value' = ''Jane Doe''\<rparr>,
      \<lparr>label = ''Age'', value' = ''47''\<rparr>,
      \<lparr>label = ''Gender'', value' = ''Female''\<rparr>,
      \<lparr>label = ''Date'', value' = ''04/02/1990''\<rparr>]
   \<and> trim (map char_of [9, 10, 11, 12, 13, 32, 160 :: nat] @ ''Jane  Doe''
           @ map char_of [160, 32, 13, 12, 11, 10, 9 :: nat]) = ''Jane  Doe''
   \<and> trim ''  Jane Doe '' \<noteq> []
   \<and> \<not> isWhiteSpace (hd (trim ''  Jane Doe ''))
   \<and> \<not> isWhiteSpace (last (trim ''  Jane Doe ''))"
proof -
  have ne: "trim ''  Jane Doe '' \<noteq> []"
    by (simp add: trim_def isWhiteSpace_def unit_def)
  note k = key_information_values [where after = "''\<newline>Notes: none''"
      and s = "''  Jane Doe ''" and content = "[]"]
  from k have "extractKeyInformations (jane_doe_report_crlf @ ''\<newline>Notes: none'') =
     [\<lparr>label = ''Patient Name'', value' = ''Jane Doe''\<rparr>,
      \<lparr>label = ''Age'', value' = ''47''\<rparr>,
      \<lparr>label = ''Gender'', value' = ''Female''\<rparr>,
      \<lparr>label = ''Date'', value' = ''04/02/1990''\<rparr>]"
    by blast
  moreover from k ne
  have "\<not> isWhiteSpace (hd (trim ''  Jane Doe '')) \<and> \<not> isWhiteSpace (last (trim ''  Jane Doe ''))"
    by blast
  ultimately show ?thesis using ne k by blast
qed

text \<open>C4 as stated fails: a text that contains the four lines after a line \<open>Dosage: 5 mg\<close>
  yields the age \<open>5\<close>, because the pattern for the age takes its leftmost match, inside
  \<open>Dosage\<close>.\<close>

theorem key_information_counterexample:
  "sublist jane_doe_report (''Dosage: 5 mg\<newline>'' @ jane_doe_report)
   \<and> extractKeyInformations (''Dosage: 5 mg\<newline>'' @ jane_doe_report) =
     [\<lparr>label = ''Patient Name'', value' = ''Jane Doe''\<rparr>,
      \<lparr>label = ''Age'', value' = ''5''\<rparr>,
      \<lparr>label = ''Gender'', value' = ''Female''\<rparr>,
      \<lparr>label = ''Date'', value' = ''04/02/1990''\<rparr>]"
proof
  show "sublist jane_doe_report (''Dosage: 5 mg\<newline>'' @ jane_doe_report)"
    by (rule sublist_append_leftI)
  show "extractKeyInformations (''Dosage: 5 mg\<newline>'' @ jane_doe_report) =
     [\<lparr>label = ''Patient Name'', value' = ''Jane Doe''\<rparr>,
      \<lparr>label = ''Age'', value' = ''5''\<rparr>,
      \<lparr>label = ''Gender'', value' = ''Female''\<rparr>,
      \<lparr>label = ''Date'', value' = ''04/02/1990''\<rparr>]"
    by (simp add: extractKeyInformations_def keyPatterns_def jane_doe_report_def regexp_eval
        RepeatMatcher_done)
qed

text \<open>C5: a file whose extension (the last piece of its name between dots, lower-cased)
  is none of \<open>txt\<close>, \<open>csv\<close>, \<open>xlsx\<close>, \<open>xls\<close> fails with the unsupported-file-type error
  before any content is read or analysed, and the analysis results stay as they
  were.\<close>

theorem unsupported_extension:
  assumes "toLowerCase (last (split (file_name file) CHR ''.'')) \<notin> {''txt'', ''csv'', ''xlsx'', ''xls''}"
  shows "handleFileUpload (Some file) st =
           st\<lparr>reportFile := Some file, isAnalyzing := False,
              alerts := alerts st @ [UnsupportedFileType]\<rparr>
    \<and> analysisResults (handleFileUpload (Some file) st) = analysisResults st
    \<and> fileContent (handleFileUpload (Some file) st) = fileContent st
    \<and> alerts (handleFileUpload (Some file) st) = alerts st @ [UnsupportedFileType]"
  using assms
  by (simp add: handleFileUpload_def parseFile_def fileExtension_last read_content_def
      catch_finally_def Let_def)

theorem unsupported_extension_witness:
  "toLowerCase (last (split (file_name scan_pdf) CHR ''.'')) \<notin> {''txt'', ''csv'', ''xlsx'', ''xls''}
   \<and> analysisResults (handleFileUpload (Some scan_pdf) initial_state) = initial_analysisResults
   \<and> alerts (handleFileUpload (Some scan_pdf) initial_state) = [UnsupportedFileType]"
proof -
  have h: "toLowerCase (last (split (file_name scan_pdf) CHR ''.'')) \<notin> {''txt'', ''csv'', ''xlsx'', ''xls''}"
    by (simp add: scan_pdf_extension)
  from unsupported_extension [OF h, of initial_state] h show ?thesis
    by (simp add: initial_state_def)
qed

text \<open>C6 fails on the code: in the first upload of a session \<open>reportFile\<close> is still \<open>null\<close>
  in the closure that runs the analysis, so for every content the analysis throws a
  \<open>TypeError\<close> when it reads the file's type; the upload ends in an alert and sets no
  results.\<close>

theorem first_upload_throws:
  "performDetailedAnalysis (reportFile initial_state) content = Inl TypeError
   \<and> alerts (handleFileUpload (Some (report_txt content)) initial_state) = [TypeError]
   \<and> analysisResults (handleFileUpload (Some (report_txt content)) initial_state)
       = initial_analysisResults"
proof -
  have n: "performDetailedAnalysis (reportFile initial_state) content = Inl TypeError"
    by (simp add: initial_state_def performDetailedAnalysis_None)
  from upload_resolved [OF report_txt_extension report_txt_read, of content initial_state] n
  show ?thesis
    by (simp add: initial_state_def)
qed

text \<open>C7 fails on the code: uploading the same file twice gives different outcomes. From
  the initial state the first upload gives no result and the second one does; and
  after another file the first upload reports that file's type, the second its
  own.\<close>

theorem reupload_differs:
  "analysisResults (handleFileUpload (Some (report_txt ''diabetes'')) initial_state)
     = initial_analysisResults
   \<and> medicalTerms (analysisResults (handleFileUpload (Some (report_txt ''diabetes''))
        (handleFileUpload (Some (report_txt ''diabetes'')) initial_state))) = [''diabetes'']
   \<and> fileType (analysisResults (handleFileUpload (Some (report_txt ''diabetes''))
        (handleFileUpload (Some labs_csv) initial_state))) = ''text/csv''
   \<and> fileType (analysisResults (handleFileUpload (Some (report_txt ''diabetes''))
        (handleFileUpload (Some (report_txt ''diabetes''))
          (handleFileUpload (Some labs_csv) initial_state)))) = ''text/plain''"
proof -
  note up = upload_shows_previous_file [OF report_txt_extension report_txt_read upload_reportFile]
  have "analysisResults (handleFileUpload (Some (report_txt ''diabetes'')) initial_state)
      = initial_analysisResults"
    using upload_without_previous_file(1) [OF report_txt_extension report_txt_read, of initial_state]
    by (simp add: initial_state_def)
  moreover have "medicalTerms (analysisResults (handleFileUpload (Some (report_txt ''diabetes''))
        (handleFileUpload (Some (report_txt ''diabetes'')) initial_state))) = [''diabetes'']"
    by (simp only: up(3) diabetes_terms)
  moreover have "fileType (analysisResults (handleFileUpload (Some (report_txt ''diabetes''))
        (handleFileUpload (Some labs_csv) initial_state))) = ''text/csv''"
    by (simp only: up(1)) (simp add: labs_csv_def)
  moreover have "fileType (analysisResults (handleFileUpload (Some (report_txt ''diabetes''))
        (handleFileUpload (Some (report_txt ''diabetes''))
          (handleFileUpload (Some labs_csv) initial_state)))) = ''text/plain''"
    by (simp only: up(1)) (simp add: report_txt_def)
  ultimately show ?thesis by (simp only: simp_thms)
qed

end
